theory Spec2Isabelle
  imports Complex_Main "HOL-Library.Multiset" "HOL-Library.Sublist" "HOL-Library.Log_Nat"
begin

section \<open>The data-derivation pipeline of the music dashboard (app.py)\<close>

text \<open>
  The script reads a table of tracks, derives a decade column, and computes four view
  artifacts from the rows of the selected decades. A data frame is modelled as the list
  of its rows in table order.

  The integer columns hold 64-bit integers: a cell is the integer it denotes, and the
  one product the script computes on them wraps around as 64-bit arithmetic does. The
  feature columns hold IEEE double-precision numbers: a cell is the rational number it
  denotes, and the arithmetic of the scaler rounds every result to the nearest double,
  ties to even, with overflow to infinity and NaN as the standard prescribes. The two
  zeros are not told apart (they compare equal).

  Where a library leaves a result open to the caller (the order of equal keys under the
  default sort kind, the rows a seeded generator picks), the library routine is a
  parameter of the model.
\<close>

subsection \<open>Rows\<close>

record track =
  name :: string
  artists :: string
  year :: int
  popularity :: int
  danceability :: rat
  energy :: rat
  valence :: rat
  acousticness :: rat
  speechiness :: rat
  loudness :: rat
  tempo :: rat

record row = track +
  decade :: int

subsection \<open>Errors\<close>

text \<open>The exceptions that the library calls of the script can raise.\<close>

datatype error = ValueError | IndexError

subsection \<open>Loading (app.py, lines 14-22)\<close>

text \<open>The value a 64-bit signed integer holds after a result \<open>x\<close> wraps around.\<close>

definition wrap64 :: "int \<Rightarrow> int" where
  "wrap64 x = (x + 9223372036854775808) mod 18446744073709551616 - 9223372036854775808"

text \<open>
  \<^verbatim>\<open>df['decade'] = (df['year'] // 10) * 10\<close> on a 64-bit integer column: \<open>//\<close> is
  floor division, which is \<open>div\<close> on \<open>int\<close> and cannot overflow for the divisor 10; the
  product wraps around.
\<close>

definition add_decade :: "track \<Rightarrow> row" where
  "add_decade t =
     \<lparr>name = name t, artists = artists t, year = year t, popularity = popularity t,
      danceability = danceability t, energy = energy t, valence = valence t,
      acousticness = acousticness t, speechiness = speechiness t,
      loudness = loudness t, tempo = tempo t,
      decade = wrap64 ((year t div 10) * 10)\<rparr>"

text \<open>
  \<open>load_data\<close> takes the rows that \<^verbatim>\<open>pd.read_csv\<close> returned, adds the decade column
  and keeps the rows with \<^verbatim>\<open>df['decade'] >= 1960\<close>.
\<close>

definition load_data :: "track list \<Rightarrow> row list" where
  "load_data csv = filter (\<lambda>r. 1960 \<le> decade r) (map add_decade csv)"

subsection \<open>Decade filter (app.py, lines 28-34)\<close>

text \<open>\<^verbatim>\<open>sorted(data['decade'].unique())\<close>: the options and the default of the multiselect.\<close>

definition decade_options :: "row list \<Rightarrow> int list" where
  "decade_options data = sort (remdups (map decade data))"

definition isin :: "int \<Rightarrow> int list \<Rightarrow> bool" where
  "isin v vs = (v \<in> set vs)"

text \<open>\<^verbatim>\<open>data[data['decade'].isin(selected_decades)]\<close>: boolean-mask selection keeps row order.\<close>

definition filtered_data :: "row list \<Rightarrow> int list \<Rightarrow> row list" where
  "filtered_data data selected_decades = filter (\<lambda>r. isin (decade r) selected_decades) data"

subsection \<open>Yearly feature means (app.py, line 46)\<close>

text \<open>
  \<^verbatim>\<open>Series.mean\<close>: the arithmetic mean of the values; the mean of no values is NaN.
\<close>

definition mean :: "rat list \<Rightarrow> rat option" where
  "mean xs = (if xs = [] then None else Some (sum_list xs / of_nat (length xs)))"

text \<open>
  \<^verbatim>\<open>groupby('year')\<close>: one group per key that occurs, groups in ascending key order
  (the default \<^verbatim>\<open>sort=True\<close>), rows of a group in table order. The groups are built by
  one pass over the rows.
\<close>

fun add_to_group :: "row \<Rightarrow> (int \<times> row list) list \<Rightarrow> (int \<times> row list) list" where
  "add_to_group r [] = [(year r, [r])]"
| "add_to_group r ((k, g) # gs) =
     (if year r = k then (k, g @ [r]) # gs
      else if year r < k then (year r, [r]) # (k, g) # gs
      else (k, g) # add_to_group r gs)"

definition groupby_year :: "row list \<Rightarrow> (int \<times> row list) list" where
  "groupby_year rows = foldl (\<lambda>gs r. add_to_group r gs) [] rows"

record yearly =
  y_year :: int
  y_danceability :: "rat option"
  y_energy :: "rat option"
  y_valence :: "rat option"
  y_acousticness :: "rat option"

text \<open>
  \<^verbatim>\<open>filtered_data.groupby('year')[[...]].mean().reset_index()\<close>: one output row per
  group, the key back as a column.
\<close>

definition group_means :: "int \<times> row list \<Rightarrow> yearly" where
  "group_means kg =
     \<lparr>y_year = fst kg,
      y_danceability = mean (map danceability (snd kg)),
      y_energy = mean (map energy (snd kg)),
      y_valence = mean (map valence (snd kg)),
      y_acousticness = mean (map acousticness (snd kg))\<rparr>"

definition yearly_avg_features :: "row list \<Rightarrow> yearly list" where
  "yearly_avg_features fd = map group_means (groupby_year fd)"

subsection \<open>Double-precision arithmetic\<close>

text \<open>
  A double is a finite value, an infinity or NaN. A finite value is the rational number
  it denotes.
\<close>

datatype double = Val rat | PosInf | NegInf | NaN

text \<open>\<open>ilog2 x\<close> is the exponent \<open>e\<close> with \<open>2^e \<le> x < 2^(e+1)\<close>, for positive \<open>x\<close>.\<close>

definition ilog2 :: "rat \<Rightarrow> int" where
  "ilog2 x = (let d = bitlen (fst (quotient_of x)) - bitlen (snd (quotient_of x))
              in if 2 powi d \<le> x then d else d - 1)"

text \<open>Rounding to the nearest integer, a tie to the even one.\<close>

definition round_half_even :: "rat \<Rightarrow> int" where
  "round_half_even z =
     (let n = \<lfloor>z\<rfloor>; f = z - of_int n
      in if f < 1/2 then n else if 1/2 < f then n + 1 else if even n then n else n + 1)"

text \<open>
  The spacing of the doubles around a positive \<open>x\<close>: 52 fraction bits below the
  exponent of \<open>x\<close>, and the exponent not below \<open>-1022\<close> (subnormal numbers).
\<close>

definition quantum :: "rat \<Rightarrow> rat" where
  "quantum x = 2 powi (max (ilog2 x) (- 1022) - 52)"

definition round_pos :: "rat \<Rightarrow> rat" where
  "round_pos x = of_int (round_half_even (x / quantum x)) * quantum x"

text \<open>
  The double nearest to a rational number; a magnitude that rounds to \<open>2^1024\<close> or more
  overflows to an infinity.
\<close>

definition to_double :: "rat \<Rightarrow> double" where
  "to_double x =
     (if x = 0 then Val 0
      else if 0 < x then (if 2 powi 1024 \<le> round_pos x then PosInf else Val (round_pos x))
      else (if 2 powi 1024 \<le> round_pos (- x) then NegInf else Val (- round_pos (- x))))"

fun fneg :: "double \<Rightarrow> double" where
  "fneg (Val a) = Val (- a)"
| "fneg PosInf = NegInf"
| "fneg NegInf = PosInf"
| "fneg NaN = NaN"

fun fadd :: "double \<Rightarrow> double \<Rightarrow> double" where
  "fadd NaN b = NaN"
| "fadd a NaN = NaN"
| "fadd (Val a) (Val b) = to_double (a + b)"
| "fadd PosInf NegInf = NaN"
| "fadd NegInf PosInf = NaN"
| "fadd PosInf b = PosInf"
| "fadd a PosInf = PosInf"
| "fadd NegInf b = NegInf"
| "fadd a NegInf = NegInf"

definition fsub :: "double \<Rightarrow> double \<Rightarrow> double" where
  "fsub a b = fadd a (fneg b)"

definition signed_inf :: "bool \<Rightarrow> double" where
  "signed_inf negative = (if negative then NegInf else PosInf)"

fun fmul :: "double \<Rightarrow> double \<Rightarrow> double" where
  "fmul NaN b = NaN"
| "fmul a NaN = NaN"
| "fmul (Val a) (Val b) = to_double (a * b)"
| "fmul (Val a) PosInf = (if a = 0 then NaN else signed_inf (a < 0))"
| "fmul (Val a) NegInf = (if a = 0 then NaN else signed_inf (0 < a))"
| "fmul PosInf (Val b) = (if b = 0 then NaN else signed_inf (b < 0))"
| "fmul NegInf (Val b) = (if b = 0 then NaN else signed_inf (0 < b))"
| "fmul PosInf PosInf = PosInf"
| "fmul PosInf NegInf = NegInf"
| "fmul NegInf PosInf = NegInf"
| "fmul NegInf NegInf = PosInf"

fun fdiv :: "double \<Rightarrow> double \<Rightarrow> double" where
  "fdiv NaN b = NaN"
| "fdiv a NaN = NaN"
| "fdiv (Val a) (Val b) =
     (if b = 0 then (if a = 0 then NaN else signed_inf (a < 0)) else to_double (a / b))"
| "fdiv (Val a) PosInf = Val 0"
| "fdiv (Val a) NegInf = Val 0"
| "fdiv PosInf (Val b) = signed_inf (b < 0)"
| "fdiv NegInf (Val b) = signed_inf (0 \<le> b)"
| "fdiv a b = NaN"

fun flt :: "double \<Rightarrow> double \<Rightarrow> bool" where
  "flt NaN b = False"
| "flt a NaN = False"
| "flt (Val a) (Val b) = (a < b)"
| "flt a NegInf = False"
| "flt NegInf b = True"
| "flt PosInf b = False"
| "flt (Val a) PosInf = True"

subsection \<open>Decade fingerprint (app.py, lines 78-87)\<close>

text \<open>
  The select box offers the decades of the filtered table and starts at the last one
  (\<^verbatim>\<open>index=len(options) - 1\<close>); with no option its value is \<^verbatim>\<open>None\<close>.
\<close>

definition selectbox_default :: "int list \<Rightarrow> int option" where
  "selectbox_default opts = (if opts = [] then None else Some (last opts))"

text \<open>
  \<^verbatim>\<open>filtered_data[filtered_data['decade'] == selected_decade_radar]\<close>: comparing the
  integer column with \<^verbatim>\<open>None\<close> is false in every row.
\<close>

definition decade_slice :: "row list \<Rightarrow> int option \<Rightarrow> row list" where
  "decade_slice fd selected_decade_radar =
     filter (\<lambda>r. selected_decade_radar = Some (decade r)) fd"

text \<open>
  The mean as the double that reaches the scaler: NaN for the mean of no values, else the
  double nearest to the mean. The library adds the values up in doubles, so its mean can
  differ from this one in the last places; the properties of the fingerprint are
  therefore also stated for every list of doubles that the scaler may receive.
\<close>

definition as_double :: "rat option \<Rightarrow> double" where
  "as_double m = (case m of None \<Rightarrow> NaN | Some q \<Rightarrow> to_double q)"

text \<open>The means of the five named columns over the slice, in the order they are named.\<close>

definition decade_features :: "row list \<Rightarrow> int option \<Rightarrow> double list" where
  "decade_features fd selected_decade_radar =
     (let s = decade_slice fd selected_decade_radar in
      [as_double (mean (map danceability s)), as_double (mean (map energy s)),
       as_double (mean (map valence s)), as_double (mean (map acousticness s)),
       as_double (mean (map speechiness s))])"

text \<open>
  \<^verbatim>\<open>MinMaxScaler()\<close> with the default feature range \<open>(0, 1)\<close>, fitted on one column.
  Fitting takes the minimum and maximum of the values that are not NaN and their
  difference, the range; a range below ten machine epsilons is replaced by one
  (\<open>handle_zeros_in_scale\<close>); then \<open>scale = (1 - 0) / range\<close> and
  \<open>min = 0 - data_min * scale\<close>. Transforming computes \<open>x * scale + min\<close>. Every
  operation is one on doubles. NaN is passed through, and with no value present minimum
  and maximum are NaN themselves. The scaler validates its input before it fits: NaN is
  allowed, an infinite value raises \<^verbatim>\<open>ValueError\<close>.
\<close>

definition fmin :: "double \<Rightarrow> double \<Rightarrow> double" where
  "fmin a b = (if flt b a then b else a)"

definition fmax :: "double \<Rightarrow> double \<Rightarrow> double" where
  "fmax a b = (if flt a b then b else a)"

definition present :: "double list \<Rightarrow> double list" where
  "present X = filter (\<lambda>x. x \<noteq> NaN) X"

definition nanmin :: "double list \<Rightarrow> double" where
  "nanmin X = (case present X of [] \<Rightarrow> NaN | v # vs \<Rightarrow> fold fmin vs v)"

definition nanmax :: "double list \<Rightarrow> double" where
  "nanmax X = (case present X of [] \<Rightarrow> NaN | v # vs \<Rightarrow> fold fmax vs v)"

definition machine_eps :: rat where
  "machine_eps = 2 powi (- 52)"

definition handle_zeros_in_scale :: "double \<Rightarrow> double" where
  "handle_zeros_in_scale s = (if flt s (Val (10 * machine_eps)) then Val 1 else s)"

record min_max_scaler =
  scale_factor :: double
  min_offset :: double

definition fit :: "double list \<Rightarrow> min_max_scaler" where
  "fit X =
     (let data_min = nanmin X; data_max = nanmax X;
          data_range = fsub data_max data_min;
          sc = fdiv (Val (1 - 0)) (handle_zeros_in_scale data_range)
      in \<lparr>scale_factor = sc, min_offset = fsub (Val 0) (fmul data_min sc)\<rparr>)"

definition transform :: "min_max_scaler \<Rightarrow> double list \<Rightarrow> double list" where
  "transform s X = map (\<lambda>x. fadd (fmul x (scale_factor s)) (min_offset s)) X"

definition is_infinite :: "double \<Rightarrow> bool" where
  "is_infinite x = (x = PosInf \<or> x = NegInf)"

definition fit_transform :: "double list \<Rightarrow> error + double list" where
  "fit_transform X =
     (if list_ex is_infinite X then Inl ValueError else Inr (transform (fit X) X))"

definition radar_values :: "row list \<Rightarrow> int option \<Rightarrow> error + double list" where
  "radar_values fd selected_decade_radar =
     fit_transform (decade_features fd selected_decade_radar)"

subsection \<open>Top songs (app.py, lines 111-112)\<close>

text \<open>
  \<^verbatim>\<open>sort_values(by='popularity', ascending=False)\<close> with the default sort kind. The
  table library reverses the rows, sorts them ascending by the key with the array
  library's sort, and reverses the result. The array library's sort is the parameter
  \<open>argsort\<close>: under the default kind (quicksort) its documentation promises an ascending
  permutation and no order among equal keys.
\<close>

definition sort_values_desc :: "(row list \<Rightarrow> row list) \<Rightarrow> row list \<Rightarrow> row list" where
  "sort_values_desc argsort rows = rev (argsort (rev rows))"

text \<open>The documented contract of the sort: an ascending permutation of its input.\<close>

definition sorts_by_popularity :: "(row list \<Rightarrow> row list) \<Rightarrow> bool" where
  "sorts_by_popularity argsort =
     (\<forall>xs. sorted (map popularity (argsort xs)) \<and> mset (argsort xs) = mset xs)"

text \<open>\<^verbatim>\<open>head(5)\<close>: the first rows, all of them when there are fewer.\<close>

definition head :: "nat \<Rightarrow> 'a list \<Rightarrow> 'a list" where
  "head n xs = take n xs"

text \<open>
  \<^verbatim>\<open>x.strip("[]")\<close> removes from both ends every character that is one of the given
  characters; \<^verbatim>\<open>.replace("'", "")\<close> deletes every single quote.
\<close>

definition strip :: "string \<Rightarrow> string \<Rightarrow> string" where
  "strip chars x =
     rev (dropWhile (\<lambda>c. c \<in> set chars) (rev (dropWhile (\<lambda>c. c \<in> set chars) x)))"

definition single_quote :: char where
  "single_quote = CHR 0x27"

definition remove_char :: "char \<Rightarrow> string \<Rightarrow> string" where
  "remove_char c x = filter (\<lambda>d. d \<noteq> c) x"

definition clean_artists :: "string \<Rightarrow> string" where
  "clean_artists x = remove_char single_quote (strip ''[]'' x)"

definition top_songs :: "(row list \<Rightarrow> row list) \<Rightarrow> row list \<Rightarrow> int option \<Rightarrow> row list" where
  "top_songs argsort fd selected_decade_radar =
     map (\<lambda>r. r\<lparr>artists := clean_artists (artists r)\<rparr>)
       (head 5 (sort_values_desc argsort (decade_slice fd selected_decade_radar)))"

subsection \<open>Scatter sample (app.py, line 126)\<close>

text \<open>
  \<^verbatim>\<open>sample(n=2000, random_state=42)\<close>: the table library asks the seeded generator for
  \<open>n\<close> row positions out of the table's length without replacement and takes these rows;
  it raises when \<open>n\<close> exceeds the length. The generator is the parameter \<open>choice\<close>
  (seed, population size, sample size).
\<close>

definition take_rows :: "row list \<Rightarrow> nat list \<Rightarrow> error + row list" where
  "take_rows rows locs =
     (if list_all (\<lambda>i. i < length rows) locs then Inr (map (\<lambda>i. rows ! i) locs)
      else Inl IndexError)"

definition sample ::
  "(nat \<Rightarrow> nat \<Rightarrow> nat \<Rightarrow> nat list) \<Rightarrow> nat \<Rightarrow> nat \<Rightarrow> row list \<Rightarrow> error + row list" where
  "sample choice n random_state rows =
     (if length rows < n then Inl ValueError
      else take_rows rows (choice random_state (length rows) n))"

definition scatter_data ::
  "(nat \<Rightarrow> nat \<Rightarrow> nat \<Rightarrow> nat list) \<Rightarrow> row list \<Rightarrow> error + row list" where
  "scatter_data choice fd =
     (if length fd > 2000 then sample choice 2000 42 fd else Inr fd)"

subsection \<open>The specification's wording, for comparison\<close>

text \<open>
  The artist clean-up as the specification words it: strip one leading \<open>[\<close> and one
  trailing \<open>]\<close> if present, then remove every single quote.
\<close>

definition strip_brackets_once :: "string \<Rightarrow> string" where
  "strip_brackets_once x =
     (let y = (case x of [] \<Rightarrow> [] | c # cs \<Rightarrow> if c = CHR ''['' then cs else x)
      in if y \<noteq> [] \<and> last y = CHR '']'' then butlast y else y)"

definition clean_artists_spec :: "string \<Rightarrow> string" where
  "clean_artists_spec x = remove_char single_quote (strip_brackets_once x)"

subsection \<open>Notions used to state the properties\<close>

text \<open>A text that is empty or neither begins nor ends with a character of \<open>B\<close>.\<close>

definition no_end_in :: "char set \<Rightarrow> string \<Rightarrow> bool" where
  "no_end_in B x = (x = [] \<or> (hd x \<notin> B \<and> last x \<notin> B))"



text \<open>
  The years for which the decade product stays within 64 bits: every 64-bit integer but
  the eight lowest.
\<close>

definition no_wrap :: "int \<Rightarrow> bool" where
  "no_wrap y = (- 9223372036854775800 \<le> y \<and> y \<le> 9223372036854775807)"





subsection \<open>Example data\<close>

definition mk_track :: "string \<Rightarrow> string \<Rightarrow> int \<Rightarrow> int \<Rightarrow> track" where
  "mk_track n a y p =
     \<lparr>name = n, artists = a, year = y, popularity = p,
      danceability = 1/2, energy = 3/4, valence = 1/4, acousticness = 1/8,
      speechiness = 1/16, loudness = -7, tempo = 120\<rparr>"

text \<open>A track whose five fingerprint features are equal.\<close>

definition flat_track :: track where
  "flat_track =
     \<lparr>name = ''f'', artists = ''g'', year = 1984, popularity = 50,
      danceability = 3/8, energy = 3/8, valence = 3/8, acousticness = 3/8,
      speechiness = 3/8, loudness = -3, tempo = 100\<rparr>"

text \<open>Source rows of 1965, 1959 and 2000.\<close>

definition example_csv :: "track list" where
  "example_csv =
     [mk_track ''a'' ''x'' 1965 10, mk_track ''b'' ''y'' 1959 20, mk_track ''c'' ''z'' 2000 30]"

text \<open>Four rows of the 1960s with popularity 10, 90, 90, 5, named by their table index.\<close>

definition example_rows :: "row list" where
  "example_rows = map add_decade
     [mk_track ''0'' ''w'' 1965 10, mk_track ''1'' ''x'' 1962 90,
      mk_track ''2'' ''y'' 1965 90, mk_track ''3'' ''z'' 1960 5]"

text \<open>The two artist texts of the specification's examples.\<close>

definition the_beatles_text :: string where
  "the_beatles_text = [CHR ''['', single_quote] @ ''The Beatles'' @ [single_quote, CHR '']'']"

definition a_b_text :: string where
  "a_b_text = [CHR ''['', single_quote] @ ''A'' @ [single_quote] @ '', ''
     @ [single_quote] @ ''B'' @ [single_quote, CHR '']'']"

text \<open>A generator that draws the first \<open>n\<close> positions, whatever the seed.\<close>

definition first_positions :: "nat \<Rightarrow> nat \<Rightarrow> nat \<Rightarrow> nat list" where
  "first_positions seed population n = [0..<n]"

text \<open>A track of the year \<open>-2^63\<close>, the lowest 64-bit integer.\<close>

definition lowest_year_track :: track where
  "lowest_year_track = mk_track ''m'' ''v'' (- 9223372036854775808) 1"



section \<open>Properties\<close>

subsection \<open>Loader\<close>

lemma wrap64_id:
  assumes "- 9223372036854775808 \<le> x" and "x \<le> 9223372036854775807"
  shows "wrap64 x = x"
  using assms by (simp add: wrap64_def)

lemma decade_no_wrap:
  assumes "no_wrap y"
  shows "wrap64 ((y div 10) * 10) = (y div 10) * 10"
proof (rule wrap64_id)
  from assms show "- 9223372036854775808 \<le> (y div 10) * 10"
    unfolding no_wrap_def by presburger
  from assms show "(y div 10) * 10 \<le> 9223372036854775807"
    unfolding no_wrap_def by presburger
qed

lemma decade_add_decade: "decade (add_decade t) = wrap64 ((year t div 10) * 10)"
  by (simp add: add_decade_def)

lemma year_add_decade: "year (add_decade t) = year t"
  by (simp add: add_decade_def)

lemma decade_ge_1960_iff: "1960 \<le> (y div 10) * 10 \<longleftrightarrow> 1960 \<le> (y::int)"
  by presburger

lemma load_data_filter_year:
  assumes "\<forall>t \<in> set csv. no_wrap (year t)"
  shows "load_data csv = map add_decade (filter (\<lambda>t. 1960 \<le> year t) csv)"
  using assms
  by (induction csv)
    (simp_all add: load_data_def decade_add_decade decade_no_wrap decade_ge_1960_iff)

lemma load_data_row:
  assumes "r \<in> set (load_data csv)"
  shows "decade r = wrap64 ((year r div 10) * 10) \<and> 1960 \<le> decade r"
proof -
  from assms obtain t where t: "t \<in> set csv" "r = add_decade t" "1960 \<le> decade r"
    by (auto simp: load_data_def)
  then show ?thesis
    by (simp add: decade_add_decade year_add_decade)
qed

text \<open>
  C7, as the specification states it, fails: the decade product is computed in 64 bits.
  For the year \<open>-9223372036854775808\<close> the floor quotient is \<open>-922337203685477581\<close>, its
  tenfold wraps around to \<open>9223372036854775806\<close>, and the row is kept with a decade that
  is neither \<open>floor (year / 10) * 10\<close> nor a multiple of 10.
\<close>

theorem load_data_wrap_counterexample:
  "map decade (load_data [lowest_year_track]) = [9223372036854775806]
   \<and> map year (load_data [lowest_year_track]) = [- 9223372036854775808]
   \<and> (9223372036854775806 :: int) mod 10 = 6
   \<and> (- 9223372036854775808 div 10) * 10 = (- 9223372036854775810 :: int)"
  by (simp add: load_data_def add_decade_def lowest_year_track_def mk_track_def wrap64_def)

text \<open>
  C7 (amended): no row of the working table has a decade below 1960, and every row whose
  year is not one of the eight lowest 64-bit integers has
  \<open>decade = floor (year / 10) * 10\<close>, a multiple of 10, and a year of at least 1960. When
  no source year is among those eight, the table holds exactly the source rows with year
  at least 1960, in source order. A row of 1965 gets decade 1960, a row of 2000 gets
  decade 2000, and a row of 1959 is not in the table.
\<close>

theorem load_data_decade:
  "(\<forall>r \<in> set (load_data csv). 1960 \<le> decade r
      \<and> (no_wrap (year r) \<longrightarrow>
           decade r = (year r div 10) * 10 \<and> decade r mod 10 = 0 \<and> 1960 \<le> year r))
   \<and> ((\<forall>t \<in> set csv. no_wrap (year t))
        \<longrightarrow> load_data csv = map add_decade (filter (\<lambda>t. 1960 \<le> year t) csv))
   \<and> (year t = 1965 \<longrightarrow> map decade (load_data [t]) = [1960])
   \<and> (year t = 2000 \<longrightarrow> map decade (load_data [t]) = [2000])
   \<and> (year t = 1959 \<longrightarrow> load_data (pre @ [t] @ post) = load_data pre @ load_data post)"
proof -
  have rows: "\<forall>r \<in> set (load_data csv). 1960 \<le> decade r
      \<and> (no_wrap (year r) \<longrightarrow>
           decade r = (year r div 10) * 10 \<and> decade r mod 10 = 0 \<and> 1960 \<le> year r)"
  proof
    fix r assume "r \<in> set (load_data csv)"
    then have d: "decade r = wrap64 ((year r div 10) * 10)" and g: "1960 \<le> decade r"
      using load_data_row by blast+
    have "decade r = (year r div 10) * 10 \<and> decade r mod 10 = 0 \<and> 1960 \<le> year r"
      if "no_wrap (year r)"
    proof -
      from that d have e: "decade r = (year r div 10) * 10" by (simp add: decade_no_wrap)
      then have "decade r mod 10 = 0" by simp
      moreover from e g have "1960 \<le> year r" by (simp add: decade_ge_1960_iff)
      ultimately show ?thesis using e by simp
    qed
    with g show "1960 \<le> decade r
      \<and> (no_wrap (year r) \<longrightarrow>
           decade r = (year r div 10) * 10 \<and> decade r mod 10 = 0 \<and> 1960 \<le> year r)"
      by blast
  qed
  have e1: "year t = 1965 \<longrightarrow> map decade (load_data [t]) = [1960]"
    by (simp add: load_data_def decade_add_decade wrap64_def)
  have e2: "year t = 2000 \<longrightarrow> map decade (load_data [t]) = [2000]"
    by (simp add: load_data_def decade_add_decade wrap64_def)
  have e3: "year t = 1959 \<longrightarrow> load_data (pre @ [t] @ post) = load_data pre @ load_data post"
    by (simp add: load_data_def decade_add_decade wrap64_def)
  from rows load_data_filter_year e1 e2 e3 show ?thesis by blast
qed

theorem load_data_decade_witness:
  "map decade (load_data example_csv) = [1960, 2000]
   \<and> map name (load_data example_csv) = [''a'', ''c'']
   \<and> list_all (\<lambda>r. no_wrap (year r) \<and> decade r = (year r div 10) * 10
        \<and> decade r mod 10 = 0 \<and> 1960 \<le> decade r) (load_data example_csv)"
  using load_data_decade [of example_csv "mk_track ''b'' ''y'' 1959 20"
      "[mk_track ''a'' ''x'' 1965 10]" "[mk_track ''c'' ''z'' 2000 30]"]
  by (simp add: list_all_iff example_csv_def load_data_def add_decade_def mk_track_def
      wrap64_def no_wrap_def)

subsection \<open>Decade filter\<close>

lemma filtered_data_filter:
  "filtered_data data sel = filter (\<lambda>r. decade r \<in> set sel) data"
  by (simp add: filtered_data_def isin_def)

lemma filtered_data_all:
  assumes "decade ` set data \<subseteq> set sel"
  shows "filtered_data data sel = data"
proof -
  from assms have "\<forall>r \<in> set data. decade r \<in> set sel" by blast
  then show ?thesis by (simp add: filtered_data_filter)
qed

lemma set_decade_options: "set (decade_options data) = decade ` set data"
  by (simp add: decade_options_def)

text \<open>
  C5: the filter returns exactly the rows whose decade is in the selection (each as often
  as the table holds it) in table order; the empty selection gives the empty table; the
  selection of all decades present (the multiselect's default) gives the table unchanged.
\<close>

theorem filtered_data_spec:
  "filtered_data data sel = filter (\<lambda>r. decade r \<in> set sel) data
   \<and> subseq (filtered_data data sel) data
   \<and> (\<forall>r. count (mset (filtered_data data sel)) r =
          (if decade r \<in> set sel then count (mset data) r else 0))
   \<and> filtered_data data [] = []
   \<and> filtered_data data (decade_options data) = data
   \<and> (decade ` set data \<subseteq> set sel \<longrightarrow> filtered_data data sel = data)"
proof -
  have order: "subseq (filtered_data data sel) data"
    by (simp add: filtered_data_filter)
  have counts: "\<forall>r. count (mset (filtered_data data sel)) r =
          (if decade r \<in> set sel then count (mset data) r else 0)"
    by (simp add: filtered_data_filter)
  have none: "filtered_data data [] = []"
    by (simp add: filtered_data_filter)
  have dflt: "filtered_data data (decade_options data) = data"
    by (rule filtered_data_all) (simp add: set_decade_options)
  from filtered_data_filter order counts none dflt filtered_data_all show ?thesis
    by blast
qed

theorem filtered_data_spec_witness:
  "map name (filtered_data (load_data example_csv) [2000]) = [''c'']
   \<and> filtered_data (load_data example_csv) [] = []
   \<and> decade_options (load_data example_csv) = [1960, 2000]
   \<and> filtered_data (load_data example_csv) [1960, 2000] = load_data example_csv"
  using filtered_data_spec [of "load_data example_csv" "[1960, 2000]"]
    filtered_data_spec [of "load_data example_csv" "[2000]"]
  by (simp add: example_csv_def load_data_def add_decade_def mk_track_def decade_options_def
      wrap64_def)

subsection \<open>Artist clean-up\<close>

lemma dropWhile_all:
  assumes "set xs \<subseteq> A"
  shows "dropWhile (\<lambda>c. c \<in> A) (xs @ ys) = dropWhile (\<lambda>c. c \<in> A) ys"
  using assms by (induction xs) simp_all

lemma dropWhile_keep:
  assumes "xs \<noteq> []" and "hd xs \<notin> A"
  shows "dropWhile (\<lambda>c. c \<in> A) xs = xs"
  using assms by (cases xs) simp_all

lemma strip_decomp:
  assumes pre: "set pre \<subseteq> set chars" and suf: "set suf \<subseteq> set chars"
    and mid: "no_end_in (set chars) mid"
  shows "strip chars (pre @ mid @ suf) = mid"
proof -
  let ?P = "\<lambda>c. c \<in> set chars"
  from pre have d1: "dropWhile ?P (pre @ mid @ suf) = dropWhile ?P (mid @ suf)"
    by (rule dropWhile_all)
  show ?thesis
  proof (cases "mid = []")
    case True
    from suf have "dropWhile ?P (suf @ []) = dropWhile ?P []"
      by (rule dropWhile_all)
    then have e: "dropWhile ?P (mid @ suf) = []"
      using True by simp
    show ?thesis
      unfolding strip_def d1 e using True by simp
  next
    case False
    with mid have h: "hd mid \<notin> set chars" and l: "last mid \<notin> set chars"
      by (simp_all add: no_end_in_def)
    from False h have "dropWhile ?P (mid @ suf) = mid @ suf"
      by (intro dropWhile_keep) simp_all
    moreover have "dropWhile ?P (rev suf @ rev mid) = dropWhile ?P (rev mid)"
      using suf by (intro dropWhile_all) simp
    moreover from False l have "dropWhile ?P (rev mid) = rev mid"
      by (intro dropWhile_keep) (simp_all add: hd_rev)
    ultimately show ?thesis
      unfolding strip_def d1 by simp
  qed
qed

lemma strip_decomp_exists:
  "\<exists>pre mid suf. x = pre @ mid @ suf \<and> set pre \<subseteq> set chars \<and> set suf \<subseteq> set chars
     \<and> no_end_in (set chars) mid"
proof -
  let ?P = "\<lambda>c. c \<in> set chars"
  define pre where "pre = takeWhile ?P x"
  define rest where "rest = dropWhile ?P x"
  define suf where "suf = rev (takeWhile ?P (rev rest))"
  define mid where "mid = rev (dropWhile ?P (rev rest))"
  have x: "pre @ rest = x"
    unfolding pre_def rest_def by (rule takeWhile_dropWhile_id)
  have "rev (takeWhile ?P (rev rest) @ dropWhile ?P (rev rest)) = rev (rev rest)"
    by (simp only: takeWhile_dropWhile_id)
  then have rest: "mid @ suf = rest"
    unfolding mid_def suf_def by (simp only: rev_append rev_rev_ident)
  have b: "set pre \<subseteq> set chars"
    unfolding pre_def by (auto dest: set_takeWhileD)
  have c: "set suf \<subseteq> set chars"
    unfolding suf_def by (auto dest: set_takeWhileD)
  have d: "no_end_in (set chars) mid"
  proof (cases "mid = []")
    case True
    then show ?thesis by (simp add: no_end_in_def)
  next
    case False
    then have "dropWhile ?P (rev rest) \<noteq> []"
      unfolding mid_def by simp
    then have "hd (dropWhile ?P (rev rest)) \<notin> set chars"
      by (rule hd_dropWhile)
    with False have l: "last mid \<notin> set chars"
      unfolding mid_def by (simp add: last_rev)
    from False rest have ne: "rest \<noteq> []" by auto
    then have "hd rest \<notin> set chars"
      unfolding rest_def by (rule hd_dropWhile)
    moreover from False have "hd (mid @ suf) = hd mid" by (rule hd_append2)
    ultimately have "hd mid \<notin> set chars" using rest by simp
    with l show ?thesis by (simp add: no_end_in_def)
  qed
  from x rest have "x = pre @ mid @ suf" by simp
  with b c d show ?thesis by blast
qed

lemma clean_agrees:
  assumes "no_end_in {CHR ''['', CHR '']''} (strip_brackets_once x)"
  shows "clean_artists x = clean_artists_spec x"
proof -
  let ?y = "case x of [] \<Rightarrow> [] | c # cs \<Rightarrow> if c = CHR ''['' then cs else x"
  let ?z = "strip_brackets_once x"
  obtain pre where pre: "x = pre @ ?y" "set pre \<subseteq> set ''[]''"
  proof (cases x)
    case Nil then show ?thesis using that[of "[]"] by simp
  next
    case (Cons c cs)
    show ?thesis
    proof (cases "c = CHR ''[''")
      case True with Cons show ?thesis using that[of "[c]"] by simp
    next
      case False with Cons show ?thesis using that[of "[]"] by simp
    qed
  qed
  obtain suf where suf: "?y = ?z @ suf" "set suf \<subseteq> set ''[]''"
  proof (cases "?y \<noteq> [] \<and> last ?y = CHR '']''")
    case True
    then have "?z = butlast ?y" by (simp add: strip_brackets_once_def Let_def)
    moreover from True have "?y \<noteq> []" by blast
    then have "butlast ?y @ [last ?y] = ?y" by (rule append_butlast_last_id)
    then have "?y = butlast ?y @ [last ?y]" by (rule sym)
    moreover from True have "set [last ?y] \<subseteq> set ''[]''" by simp
    ultimately show ?thesis using that[of "[last ?y]"] by simp
  next
    case False
    then have "?z = ?y" by (auto simp add: strip_brackets_once_def Let_def)
    then show ?thesis using that[of "[]"] by simp
  qed
  from assms have "no_end_in (set ''[]'') ?z" by simp
  with pre suf have "strip ''[]'' (pre @ ?z @ suf) = ?z"
    by (intro strip_decomp)
  with pre suf have "strip ''[]'' x = ?z" by simp
  then show ?thesis by (simp add: clean_artists_def clean_artists_spec_def)
qed

text \<open>
  C4, as the specification states it, fails: on \<open>[[A]]\<close> the code removes both brackets
  at each end and gives \<open>A\<close>; stripping exactly one bracket at each end gives \<open>[A]\<close>.
\<close>

theorem clean_artists_counterexample:
  "clean_artists ''[[A]]'' = ''A'' \<and> clean_artists_spec ''[[A]]'' = ''[A]''
   \<and> clean_artists ''[[A]]'' \<noteq> clean_artists_spec ''[[A]]''"
  by (simp add: clean_artists_def clean_artists_spec_def strip_def strip_brackets_once_def
      remove_char_def single_quote_def)

text \<open>
  C4 (amended): the clean-up removes from both ends every character that is \<open>[\<close> or
  \<open>]\<close>, however many there are and whichever of the two stands at either end, and then
  deletes every single quote, leaving everything else untouched. Every text splits into
  such a run of brackets, a middle and another run of brackets, and the result is the
  middle without its single quotes. The result is the specification's (one \<open>[\<close> in front
  and one \<open>]\<close> at the end stripped) whenever what that leaves neither begins nor ends
  with a bracket. The two examples of the specification hold.
\<close>

theorem clean_artists_strips_all_brackets:
  "(set pre \<subseteq> {CHR ''['', CHR '']''} \<and> set suf \<subseteq> {CHR ''['', CHR '']''}
      \<and> no_end_in {CHR ''['', CHR '']''} mid
      \<longrightarrow> clean_artists (pre @ mid @ suf) = filter (\<lambda>c. c \<noteq> single_quote) mid)
   \<and> (\<exists>p m s. x = p @ m @ s \<and> set p \<subseteq> {CHR ''['', CHR '']''}
          \<and> set s \<subseteq> {CHR ''['', CHR '']''} \<and> no_end_in {CHR ''['', CHR '']''} m)
   \<and> (no_end_in {CHR ''['', CHR '']''} (strip_brackets_once x)
      \<longrightarrow> clean_artists x = clean_artists_spec x)
   \<and> clean_artists the_beatles_text = ''The Beatles''
   \<and> clean_artists a_b_text = ''A, B''"
proof -
  have split: "set pre \<subseteq> {CHR ''['', CHR '']''} \<and> set suf \<subseteq> {CHR ''['', CHR '']''}
      \<and> no_end_in {CHR ''['', CHR '']''} mid
      \<longrightarrow> clean_artists (pre @ mid @ suf) = filter (\<lambda>c. c \<noteq> single_quote) mid"
  proof
    assume h: "set pre \<subseteq> {CHR ''['', CHR '']''} \<and> set suf \<subseteq> {CHR ''['', CHR '']''}
      \<and> no_end_in {CHR ''['', CHR '']''} mid"
    then have "strip ''[]'' (pre @ mid @ suf) = mid"
      by (intro strip_decomp) simp_all
    then show "clean_artists (pre @ mid @ suf) = filter (\<lambda>c. c \<noteq> single_quote) mid"
      by (simp add: clean_artists_def remove_char_def)
  qed
  have ex: "\<exists>p m s. x = p @ m @ s \<and> set p \<subseteq> {CHR ''['', CHR '']''}
          \<and> set s \<subseteq> {CHR ''['', CHR '']''} \<and> no_end_in {CHR ''['', CHR '']''} m"
    using strip_decomp_exists [of x "''[]''"] by simp
  have agree: "no_end_in {CHR ''['', CHR '']''} (strip_brackets_once x)
      \<longrightarrow> clean_artists x = clean_artists_spec x"
    using clean_agrees by blast
  have b: "clean_artists the_beatles_text = ''The Beatles''"
    by (simp add: the_beatles_text_def clean_artists_def strip_def remove_char_def
        single_quote_def)
  have ab: "clean_artists a_b_text = ''A, B''"
    by (simp add: a_b_text_def clean_artists_def strip_def remove_char_def single_quote_def)
  from split ex agree b ab show ?thesis by blast
qed

theorem clean_artists_strips_all_brackets_witness:
  "clean_artists (''[['' @ ''A, B'' @ '']]'') = ''A, B''
   \<and> clean_artists ''[A]'' = clean_artists_spec ''[A]''"
  using clean_artists_strips_all_brackets [of "''[[''" "'']]''" "''A, B''" "''[A]''"]
  by (simp add: no_end_in_def strip_brackets_once_def single_quote_def)

subsection \<open>Rounding to a double\<close>

lemma ilog2_aux:
  assumes "0 < x"
  defines "d \<equiv> bitlen (fst (quotient_of x)) - bitlen (snd (quotient_of x))"
  shows "2 powi (d - 1) < x" and "x < 2 powi (d + 1)"
proof -
  obtain p q where pq: "quotient_of x = (p, q)" by (cases "quotient_of x")
  then have q: "0 < q" by (rule quotient_of_denom_pos)
  from pq have x: "x = of_int p / of_int q" by (rule quotient_of_div)
  from assms x q have p: "0 < p" by (simp add: zero_less_divide_iff)
  define bp where "bp = bitlen p"
  define bq where "bq = bitlen q"
  have d: "d = bp - bq" by (simp add: d_def pq bp_def bq_def)
  from p have bp1: "1 \<le> bp" unfolding bp_def
    using bitlen_nonneg [of p] bitlen_eq_zero_iff [of p] by linarith
  from q have bq1: "1 \<le> bq" unfolding bq_def
    using bitlen_nonneg [of q] bitlen_eq_zero_iff [of q] by linarith
  from bitlen_bounds [OF p] have plo: "2 ^ nat (bp - 1) \<le> p" and phi: "p < 2 ^ nat bp"
    by (simp_all add: bp_def)
  from bitlen_bounds [OF q] have qlo: "2 ^ nat (bq - 1) \<le> q" and qhi: "q < 2 ^ nat bq"
    by (simp_all add: bq_def)
  have rp_lo: "(2::rat) powi (bp - 1) \<le> of_int p"
  proof -
    from plo have "(of_int (2 ^ nat (bp - 1)) :: rat) \<le> of_int p" by (simp only: of_int_le_iff)
    then show ?thesis using bp1 by (simp add: power_int_nonneg_exp)
  qed
  have rp_hi: "(of_int p :: rat) < 2 powi bp"
  proof -
    from phi have "(of_int p :: rat) < of_int (2 ^ nat bp)" by (simp only: of_int_less_iff)
    then show ?thesis using bp1 by (simp add: power_int_nonneg_exp)
  qed
  have rq_lo: "(2::rat) powi (bq - 1) \<le> of_int q"
  proof -
    from qlo have "(of_int (2 ^ nat (bq - 1)) :: rat) \<le> of_int q" by (simp only: of_int_le_iff)
    then show ?thesis using bq1 by (simp add: power_int_nonneg_exp)
  qed
  have rq_hi: "(of_int q :: rat) < 2 powi bq"
  proof -
    from qhi have "(of_int q :: rat) < of_int (2 ^ nat bq)" by (simp only: of_int_less_iff)
    then show ?thesis using bq1 by (simp add: power_int_nonneg_exp)
  qed
  have qpos: "(0::rat) < of_int q" using q by simp
  have ppos: "(0::rat) < of_int p" using p by simp
  have "d - 1 = bp - 1 - bq"
    unfolding d by simp
  also have "(2::rat) powi (bp - 1 - bq) = 2 powi (bp - 1) / 2 powi bq"
    by (rule power_int_diff) simp
  finally have "(2::rat) powi (d - 1) = 2 powi (bp - 1) / 2 powi bq" .
  also have "\<dots> \<le> of_int p / 2 powi bq"
    using rp_lo by (simp add: divide_right_mono)
  also have "\<dots> < of_int p / of_int q"
    using rq_hi qpos ppos by (simp add: divide_strict_left_mono)
  finally show "2 powi (d - 1) < x" by (simp add: x)
  have "x = of_int p / of_int q" by (rule x)
  also have "\<dots> < 2 powi bp / of_int q"
    using rp_hi qpos by (simp add: divide_strict_right_mono)
  also have "\<dots> \<le> 2 powi bp / 2 powi (bq - 1)"
    using rq_lo qpos by (intro divide_left_mono) (simp_all add: zero_less_mult_iff)
  also have "\<dots> = 2 powi (bp - (bq - 1))"
    by (rule power_int_diff [symmetric]) simp
  also have "bp - (bq - 1) = d + 1"
    unfolding d by simp
  finally show "x < 2 powi (d + 1)" .
qed

lemma ilog2_bounds:
  assumes "0 < x"
  shows "2 powi (ilog2 x) \<le> x" and "x < 2 powi (ilog2 x + 1)"
proof -
  let ?d = "bitlen (fst (quotient_of x)) - bitlen (snd (quotient_of x))"
  note a = ilog2_aux [OF assms]
  show "2 powi (ilog2 x) \<le> x"
    using a(1) by (simp add: ilog2_def Let_def less_imp_le)
  show "x < 2 powi (ilog2 x + 1)"
    using a(2) by (auto simp add: ilog2_def Let_def not_le)
qed

lemma ilog2_unique:
  assumes "2 powi e \<le> x" and "x < 2 powi (e + 1)"
  shows "ilog2 x = e"
proof -
  have pos: "0 < x" using assms(1) by (rule less_le_trans [rotated]) simp
  note b = ilog2_bounds [OF pos]
  have "ilog2 x < e + 1"
  proof (rule ccontr)
    assume "\<not> ilog2 x < e + 1"
    then have "(2::rat) powi (e + 1) \<le> 2 powi ilog2 x" by (intro power_int_increasing) simp_all
    with b(1) assms(2) show False by simp
  qed
  moreover have "e < ilog2 x + 1"
  proof (rule ccontr)
    assume "\<not> e < ilog2 x + 1"
    then have "(2::rat) powi (ilog2 x + 1) \<le> 2 powi e" by (intro power_int_increasing) simp_all
    with b(2) assms(1) show False by simp
  qed
  ultimately show ?thesis by simp
qed


lemma round_half_even_of_int [simp]: "round_half_even (of_int n) = n"
  by (simp add: round_half_even_def)

lemma round_half_even_floor: "\<lfloor>z\<rfloor> \<le> round_half_even z" "round_half_even z \<le> \<lfloor>z\<rfloor> + 1"
  by (simp_all add: round_half_even_def Let_def)

lemma round_half_even_mono:
  assumes "z \<le> z'"
  shows "round_half_even z \<le> round_half_even z'"
proof (cases "\<lfloor>z\<rfloor> = \<lfloor>z'\<rfloor>")
  case True
  with assms show ?thesis
    by (auto simp: round_half_even_def Let_def)
next
  case False
  with assms have "\<lfloor>z\<rfloor> < \<lfloor>z'\<rfloor>" using floor_mono [of z z'] by simp
  then have "\<lfloor>z\<rfloor> + 1 \<le> \<lfloor>z'\<rfloor>" by simp
  with round_half_even_floor(2) [of z] round_half_even_floor(1) [of z'] show ?thesis by linarith
qed

lemma round_half_even_neg: "round_half_even (- z) = - round_half_even z"
proof (cases "z \<in> \<int>")
  case True
  then obtain n where "z = of_int n" by (auto elim: Ints_cases)
  then show ?thesis by (simp flip: of_int_minus)
next
  case False
  then have ne0: "z \<noteq> of_int \<lfloor>z\<rfloor>" by (metis Ints_of_int)
  then have fl: "\<lfloor>- z\<rfloor> = - \<lfloor>z\<rfloor> - 1"
    by (simp add: floor_minus ceiling_altdef)
  have ne: "z \<noteq> of_int \<lfloor>z\<rfloor>" using False by (metis Ints_of_int)
  then have frac: "z - of_int \<lfloor>z\<rfloor> \<noteq> 0" by simp
  show ?thesis
    unfolding round_half_even_def Let_def fl
    using frac ne by (auto simp: algebra_simps)
qed


lemma round_pos_quantum: "round_pos x = of_int (round_half_even (x / quantum x)) * quantum x"
  by (simp add: round_pos_def)

lemma quantum_pos: "0 < quantum x"
  by (simp add: quantum_def)

lemma quantum_mult_53: "2 powi 53 * quantum x = 2 powi (max (ilog2 x) (- 1022) + 1)"
proof -
  have "(2::rat) powi 53 * 2 powi (max (ilog2 x) (- 1022) - 52)
      = 2 powi (53 + (max (ilog2 x) (- 1022) - 52))"
    by (rule power_int_add [symmetric]) simp
  then show ?thesis by (simp add: quantum_def add.commute)
qed

lemma quantum_mult_52: "2 powi 52 * quantum x = 2 powi (max (ilog2 x) (- 1022))"
proof -
  have "(2::rat) powi 52 * 2 powi (max (ilog2 x) (- 1022) - 52)
      = 2 powi (52 + (max (ilog2 x) (- 1022) - 52))"
    by (rule power_int_add [symmetric]) simp
  then show ?thesis by (simp add: quantum_def)
qed

lemma round_pos_nonneg:
  assumes "0 < x"
  shows "0 \<le> round_pos x"
proof -
  from assms quantum_pos [of x] have "0 \<le> x / quantum x" by simp
  then have "round_half_even 0 \<le> round_half_even (x / quantum x)"
    by (rule round_half_even_mono)
  then have "0 \<le> round_half_even (x / quantum x)"
    using round_half_even_of_int [of 0] by simp
  then show ?thesis
    using quantum_pos [of x] by (simp add: round_pos_quantum)
qed

lemma round_pos_upper:
  assumes "0 < x"
  shows "round_half_even (x / quantum x) \<le> 2 ^ 53"
    and "round_pos x \<le> 2 powi (max (ilog2 x) (- 1022) + 1)"
proof -
  let ?E = "max (ilog2 x) (- 1022)"
  have "x < 2 powi (ilog2 x + 1)" using assms by (rule ilog2_bounds)
  also have "\<dots> \<le> 2 powi (?E + 1)" by (intro power_int_increasing) simp_all
  finally have "x < 2 powi (?E + 1)" .
  then have "x \<le> 2 powi 53 * quantum x"
    unfolding quantum_mult_53 by (rule less_imp_le)
  then have "x / quantum x \<le> 2 powi 53"
    using quantum_pos [of x] by (simp add: pos_divide_le_eq)
  then have "x / quantum x \<le> of_int (2 ^ 53)" by simp
  then have "round_half_even (x / quantum x) \<le> round_half_even (of_int (2 ^ 53))"
    by (rule round_half_even_mono)
  then show m: "round_half_even (x / quantum x) \<le> 2 ^ 53"
    by (simp only: round_half_even_of_int)
  then have "(of_int (round_half_even (x / quantum x)) :: rat) \<le> of_int (2 ^ 53)"
    by (simp only: of_int_le_iff)
  then have "of_int (round_half_even (x / quantum x)) * quantum x \<le> 2 powi 53 * quantum x"
    using quantum_pos [of x] by (simp add: mult_right_mono)
  then show "round_pos x \<le> 2 powi (?E + 1)"
    by (simp only: round_pos_quantum quantum_mult_53)
qed

lemma round_pos_lower:
  assumes "0 < x" and "- 1022 \<le> ilog2 x"
  shows "2 ^ 52 \<le> round_half_even (x / quantum x)"
    and "2 powi (ilog2 x) \<le> round_pos x"
proof -
  from assms(2) have E: "max (ilog2 x) (- 1022) = ilog2 x" by simp
  have "2 powi (ilog2 x) \<le> x" using assms(1) by (rule ilog2_bounds)
  then have "2 powi 52 * quantum x \<le> x" unfolding quantum_mult_52 E .
  then have "2 powi 52 \<le> x / quantum x"
    using quantum_pos [of x] by (simp add: pos_le_divide_eq)
  then have "of_int (2 ^ 52) \<le> x / quantum x" by simp
  then have "round_half_even (of_int (2 ^ 52)) \<le> round_half_even (x / quantum x)"
    by (rule round_half_even_mono)
  then show m: "2 ^ 52 \<le> round_half_even (x / quantum x)"
    by (simp only: round_half_even_of_int)
  then have "(of_int (2 ^ 52) :: rat) \<le> of_int (round_half_even (x / quantum x))"
    by (simp only: of_int_le_iff)
  then have "2 powi 52 * quantum x \<le> of_int (round_half_even (x / quantum x)) * quantum x"
    using quantum_pos [of x] by (simp add: mult_right_mono)
  then show "2 powi (ilog2 x) \<le> round_pos x"
    by (simp only: round_pos_quantum quantum_mult_52 E)
qed


lemma round_pos_exact:
  assumes e: "- 1022 \<le> e" and m: "0 < m" "m \<le> 2 ^ 53" and n: "2 ^ 52 \<le> m \<or> e = - 1022"
  shows "round_pos (of_int m * 2 powi (e - 52)) = of_int m * 2 powi (e - 52)"
proof -
  let ?q = "(2::rat) powi (e - 52)"
  let ?y = "of_int m * ?q"
  have qpos: "0 < ?q" by simp
  have ypos: "0 < ?y" using m(1) by simp
  have q52: "2 powi 52 * ?q = 2 powi e"
  proof -
    have "(2::rat) powi 52 * 2 powi (e - 52) = 2 powi (52 + (e - 52))"
      by (rule power_int_add [symmetric]) simp
    then show ?thesis by simp
  qed
  have q53: "2 powi 53 * ?q = 2 powi (e + 1)"
  proof -
    have "(2::rat) powi 53 * 2 powi (e - 52) = 2 powi (53 + (e - 52))"
      by (rule power_int_add [symmetric]) simp
    then show ?thesis by (simp add: add.commute)
  qed
  have exact: "quantum ?y = ?q \<Longrightarrow> round_pos ?y = ?y"
    by (simp add: round_pos_quantum)
  show ?thesis
  proof (cases "m = 2 ^ 53")
    case True
    then have y: "?y = 2 powi (e + 1)" using q53 by simp
    have "ilog2 ((2::rat) powi (e + 1)) = e + 1"
    proof (rule ilog2_unique)
      show "(2::rat) powi (e + 1) \<le> 2 powi (e + 1)" by simp
      show "(2::rat) powi (e + 1) < 2 powi (e + 1 + 1)"
        by (intro power_int_strict_increasing) simp_all
    qed
    then have qy: "quantum ?y = 2 powi (e + 1 - 52)"
      using e by (simp add: quantum_def y)
    have two: "(2::rat) powi (e + 1 - 52) = 2 * ?q"
    proof -
      have "(2::rat) powi (1 + (e - 52)) = 2 powi 1 * 2 powi (e - 52)"
        by (rule power_int_add) simp
      then show ?thesis by (simp add: add.commute)
    qed
    have "?y / quantum ?y = of_int (2 ^ 52)"
      unfolding qy two using True qpos by simp
    then have "round_pos ?y = of_int (2 ^ 52) * quantum ?y"
      by (simp only: round_pos_quantum round_half_even_of_int)
    also have "\<dots> = ?y"
      unfolding qy two using True by simp
    finally show ?thesis .
  next
    case False
    with m(2) have lt: "m < 2 ^ 53" by simp
    then have "(of_int m :: rat) < of_int (2 ^ 53)" by (simp only: of_int_less_iff)
    then have "?y < 2 powi 53 * ?q" using qpos by (simp add: mult_strict_right_mono)
    then have up: "?y < 2 powi (e + 1)" by (simp only: q53)
    show ?thesis
    proof (cases "2 ^ 52 \<le> m")
      case True
      then have "(of_int (2 ^ 52) :: rat) \<le> of_int m" by (simp only: of_int_le_iff)
      then have "2 powi 52 * ?q \<le> ?y" using qpos by (simp add: mult_right_mono)
      then have "2 powi e \<le> ?y" by (simp only: q52)
      then have "ilog2 ?y = e" using up by (rule ilog2_unique)
      then have "quantum ?y = ?q" using e by (simp add: quantum_def)
      then show ?thesis by (rule exact)
    next
      case small: False
      with n have e1022: "e = - 1022" by simp
      from small have "(of_int m :: rat) < of_int (2 ^ 52)" by (simp only: of_int_less_iff)
      then have "?y < 2 powi 52 * ?q" using qpos by (simp add: mult_strict_right_mono)
      then have ylt: "?y < 2 powi e" by (simp only: q52)
      have "ilog2 ?y \<le> e"
      proof (rule ccontr)
        assume "\<not> ilog2 ?y \<le> e"
        then have "(2::rat) powi e \<le> 2 powi ilog2 ?y" by (intro power_int_increasing) simp_all
        moreover have "2 powi ilog2 ?y \<le> ?y" using ypos by (rule ilog2_bounds)
        ultimately show False using ylt by simp
      qed
      then have "quantum ?y = ?q" using e1022 by (simp add: quantum_def max_def)
      then show ?thesis by (rule exact)
    qed
  qed
qed

lemma round_pos_idem:
  assumes "0 < x" and "0 < round_pos x"
  shows "round_pos (round_pos x) = round_pos x"
proof -
  let ?e = "max (ilog2 x) (- 1022)"
  let ?m = "round_half_even (x / quantum x)"
  have rp: "round_pos x = of_int ?m * 2 powi (?e - 52)"
    by (simp add: round_pos_quantum quantum_def)
  from assms(2) have m0: "0 < ?m"
    using quantum_pos [of x] by (simp add: round_pos_quantum zero_less_mult_iff)
  have m53: "?m \<le> 2 ^ 53" using assms(1) by (rule round_pos_upper)
  have n: "2 ^ 52 \<le> ?m \<or> ?e = - 1022"
  proof (cases "- 1022 \<le> ilog2 x")
    case True
    with assms(1) have "2 ^ 52 \<le> ?m" by (rule round_pos_lower)
    then show ?thesis ..
  next
    case False
    then have "?e = - 1022" by simp
    then show ?thesis ..
  qed
  have "round_pos (of_int ?m * 2 powi (?e - 52)) = of_int ?m * 2 powi (?e - 52)"
    using _ m0 m53 n by (rule round_pos_exact) simp
  then show ?thesis by (simp only: rp)
qed

lemma round_pos_pow2:
  assumes "- 1022 \<le> k"
  shows "round_pos (2 powi k) = 2 powi k"
proof -
  have "round_pos (of_int (2 ^ 52) * 2 powi (k - 52)) = of_int (2 ^ 52) * 2 powi (k - 52)"
    using assms by (intro round_pos_exact) simp_all
  moreover have "of_int (2 ^ 52) * (2::rat) powi (k - 52) = 2 powi k"
  proof -
    have "(2::rat) powi 52 * 2 powi (k - 52) = 2 powi (52 + (k - 52))"
      by (rule power_int_add [symmetric]) simp
    then show ?thesis by simp
  qed
  ultimately show ?thesis by simp
qed

lemma to_double_neg: "to_double (- x) = (case to_double x of Val a \<Rightarrow> Val (- a)
    | PosInf \<Rightarrow> NegInf | NegInf \<Rightarrow> PosInf | NaN \<Rightarrow> NaN)"
  by (cases "x = 0"; cases "0 < x") (auto simp: to_double_def)

lemma to_double_neg_Val:
  assumes "to_double x = Val a"
  shows "to_double (- x) = Val (- a)"
  using assms by (simp add: to_double_neg)

lemma to_double_idem:
  assumes "to_double x = Val y"
  shows "to_double y = Val y"
proof -
  have pos: "to_double z = Val (round_pos z)"
    if z: "0 < z" and r: "0 < round_pos z" and f: "round_pos z < 2 powi 1024" for z
    using that by (simp add: to_double_def)
  have idem: "to_double (round_pos z) = Val (round_pos z)"
    if z: "0 < z" and f: "round_pos z < 2 powi 1024" for z
  proof (cases "round_pos z = 0")
    case True
    then show ?thesis by (simp add: to_double_def)
  next
    case False
    with round_pos_nonneg [OF z] have r: "0 < round_pos z" by simp
    with z have i: "round_pos (round_pos z) = round_pos z" by (rule round_pos_idem)
    with r f show ?thesis by (simp add: to_double_def)
  qed
  consider "x = 0" | "0 < x" | "x < 0" by linarith
  then show ?thesis
  proof cases
    case 1
    with assms show ?thesis by (simp add: to_double_def)
  next
    case 2
    with assms have y: "y = round_pos x" and f: "round_pos x < 2 powi 1024"
      by (auto simp: to_double_def split: if_splits)
    from idem [OF 2 f] y show ?thesis by simp
  next
    case 3
    then have nx: "0 < - x" by simp
    from 3 assms have y: "y = - round_pos (- x)" and f: "round_pos (- x) < 2 powi 1024"
      by (auto simp: to_double_def split: if_splits)
    from idem [OF nx f] have "to_double (round_pos (- x)) = Val (round_pos (- x))" .
    then have "to_double (- round_pos (- x)) = Val (- round_pos (- x))"
      by (rule to_double_neg_Val)
    with y show ?thesis by simp
  qed
qed




lemma present_Val: "present (map Val xs) = map Val xs"
  by (induction xs) (simp_all add: present_def)

lemma fold_fmin_Val: "fold fmin (map Val vs) (Val v) = Val (fold min vs v)"
  by (induction vs arbitrary: v) (simp_all add: fmin_def min_def)

lemma fold_fmax_Val: "fold fmax (map Val vs) (Val v) = Val (fold max vs v)"
  by (induction vs arbitrary: v) (simp_all add: fmax_def max_def)

lemma nanmin_Val:
  assumes "xs \<noteq> []"
  shows "nanmin (map Val xs) = Val (Min (set xs))"
proof -
  from assms obtain v vs where xs: "xs = v # vs" by (cases xs) auto
  have f: "fold min vs v = Min (set xs)"
    unfolding xs by (rule Min.set_eq_fold [symmetric])
  have p: "present (map Val xs) = Val v # map Val vs"
    unfolding present_Val by (simp add: xs)
  show ?thesis
    unfolding nanmin_def p by (simp only: list.case fold_fmin_Val f)
qed

lemma nanmax_Val:
  assumes "xs \<noteq> []"
  shows "nanmax (map Val xs) = Val (Max (set xs))"
proof -
  from assms obtain v vs where xs: "xs = v # vs" by (cases xs) auto
  have f: "fold max vs v = Max (set xs)"
    unfolding xs by (rule Max.set_eq_fold [symmetric])
  have p: "present (map Val xs) = Val v # map Val vs"
    unfolding present_Val by (simp add: xs)
  show ?thesis
    unfolding nanmax_def p by (simp only: list.case fold_fmax_Val f)
qed

lemma fit_transform_Val:
  "fit_transform (map Val xs) = Inr (transform (fit (map Val xs)) (map Val xs))"
  by (simp add: fit_transform_def list_ex_iff is_infinite_def)





subsection \<open>Decade fingerprint\<close>

lemma floor_numeral_div:
  "\<lfloor>(numeral a :: rat) / numeral b\<rfloor> = numeral a div numeral b"
  using floor_divide_of_int_eq [of "numeral a" "numeral b", where ?'a = rat] by simp

lemma to_double_at:
  assumes e: "- 1022 \<le> e" "e \<le> 1022" and lo: "2 powi e \<le> x" and hi: "x < 2 powi (e + 1)"
    and y: "y = of_int (round_half_even (x / 2 powi (e - 52))) * 2 powi (e - 52)"
  shows "to_double x = Val y"
proof -
  have pos: "0 < x" using lo by (rule less_le_trans [rotated]) simp
  from lo hi have i: "ilog2 x = e" by (rule ilog2_unique)
  with e have q: "quantum x = 2 powi (e - 52)" by (simp add: quantum_def)
  have r: "round_pos x = y" by (simp add: round_pos_def q y)
  have "round_pos x \<le> 2 powi (max (ilog2 x) (- 1022) + 1)" using pos by (rule round_pos_upper)
  also have "\<dots> = 2 powi (e + 1)" using e i by simp
  also have "\<dots> < 2 powi 1024" using e by (intro power_int_strict_increasing) simp_all
  finally have "\<not> 2 powi 1024 \<le> round_pos x" by simp
  with pos r show ?thesis by (simp add: to_double_def)
qed

lemma to_double_one: "to_double 1 = Val 1"
proof -
  have "round_pos (2 powi 0) = 2 powi 0" by (rule round_pos_pow2) simp
  then show ?thesis by (simp add: to_double_def)
qed

lemma length_decade_features: "length (decade_features fd sel) = 5"
  by (simp add: decade_features_def Let_def)

lemma as_double_idem:
  assumes "as_double m = Val c"
  shows "to_double c = Val c"
proof (cases m)
  case None
  with assms show ?thesis by (simp add: as_double_def)
next
  case (Some q)
  with assms have "to_double q = Val c" by (simp add: as_double_def)
  then show ?thesis by (rule to_double_idem)
qed

lemma decade_features_double:
  assumes "Val c \<in> set (decade_features fd sel)"
  shows "to_double c = Val c"
  using assms by (auto simp: decade_features_def Let_def dest: as_double_idem [OF sym])

lemma fit_transform_constant:
  assumes c: "to_double c = Val c" and n: "0 < n"
  shows "fit_transform (replicate n (Val c)) = Inr (replicate n (Val 0))"
proof -
  let ?xs = "replicate n c"
  from n have ne: "?xs \<noteq> []" by simp
  from n have s: "set ?xs = {c}" by simp
  have X: "replicate n (Val c) = map Val ?xs" by simp
  have mn: "nanmin (replicate n (Val c)) = Val c" and mx: "nanmax (replicate n (Val c)) = Val c"
    using nanmin_Val [OF ne] nanmax_Val [OF ne]
    by (simp_all only: s Min_singleton Max_singleton map_replicate)
  have nc: "to_double (- c) = Val (- c)" using c by (rule to_double_neg_Val)
  have z: "to_double 0 = Val 0" by (simp add: to_double_def)
  have sc: "scale_factor (fit (replicate n (Val c))) = Val 1"
    by (simp add: fit_def Let_def mn mx fsub_def z handle_zeros_in_scale_def machine_eps_def
        to_double_one)
  have mo: "min_offset (fit (replicate n (Val c))) = Val (- c)"
    by (simp add: fit_def Let_def mn mx fsub_def z handle_zeros_in_scale_def machine_eps_def
        to_double_one c nc)
  have "transform (fit (replicate n (Val c))) (replicate n (Val c)) = replicate n (Val 0)"
    by (simp add: transform_def sc mo c z)
  then show ?thesis
    using fit_transform_Val [of ?xs] by simp
qed

lemma zero_range_unguarded:
  "fdiv (Val (1 - 0)) (fsub (Val c) (Val c)) = PosInf"
  "fadd (fmul (Val c) PosInf) (fsub (Val 0) (fmul (Val c) PosInf)) = NaN"
  by (simp_all add: signed_inf_def fsub_def to_double_def)

text \<open>
  C3: when the five feature means of the slice are one and the same double, the
  fingerprint is computed without error and is the vector of five zeros: the range
  \<open>max - min\<close> is 0, the scaler replaces it by 1 before it divides, and every entry is
  \<open>x * 1 + (0 - x * 1) = 0\<close>. The same holds of the scaler on every non-empty column of
  equal doubles. Dividing by the range 0 itself would give an infinite scale and NaN
  entries (\<open>zero_range_unguarded\<close>).
\<close>

theorem radar_values_equal_means:
  "(to_double c = Val c \<and> 0 < n
      \<longrightarrow> fit_transform (replicate n (Val c)) = Inr (replicate n (Val 0)))
   \<and> (set (decade_features fd sel) = {Val c}
      \<longrightarrow> radar_values fd sel = Inr (replicate 5 (Val 0)))"
proof -
  have a: "to_double c = Val c \<and> 0 < n
      \<longrightarrow> fit_transform (replicate n (Val c)) = Inr (replicate n (Val 0))"
    using fit_transform_constant by blast
  have b: "set (decade_features fd sel) = {Val c}
      \<longrightarrow> radar_values fd sel = Inr (replicate 5 (Val 0))"
  proof
    assume h: "set (decade_features fd sel) = {Val c}"
    then have "Val c \<in> set (decade_features fd sel)" by simp
    then have c: "to_double c = Val c" by (rule decade_features_double)
    from h have "\<forall>y \<in> set (decade_features fd sel). y = Val c" by simp
    then have "replicate (length (decade_features fd sel)) (Val c) = decade_features fd sel"
      by (rule replicate_length_same)
    then have df: "decade_features fd sel = replicate 5 (Val c)"
      by (simp add: length_decade_features)
    show "radar_values fd sel = Inr (replicate 5 (Val 0))"
      unfolding radar_values_def df using c by (rule fit_transform_constant) simp
  qed
  from a b show ?thesis ..
qed



lemma round_three_eighths: "to_double (3 / 8) = Val (3 / 8)"
  by (rule to_double_at [where e = "-2"]) (simp_all add: round_half_even_def Let_def floor_numeral_div)








lemma round_half: "to_double (1 / 2) = Val (1 / 2)"
  by (rule to_double_at [where e = "-1"]) (simp_all add: round_half_even_def Let_def floor_numeral_div)




lemma flat_features:
  "decade_features [add_decade flat_track] (Some 1980)
     = replicate 5 (Val (3/8))"
  by (simp add: decade_features_def decade_slice_def add_decade_def flat_track_def wrap64_def
      mean_def as_double_def round_three_eighths numeral_eq_Suc)

theorem radar_values_equal_means_witness:
  "radar_values [add_decade flat_track] (Some 1980) = Inr (replicate 5 (Val 0))
   \<and> fit_transform (replicate 3 (Val (1/2))) = Inr (replicate 3 (Val 0))"
  using radar_values_equal_means [of "3/8" 5 "[add_decade flat_track]" "Some 1980"]
    radar_values_equal_means [of "1/2" 3 "[]" None] flat_features round_half
  by simp













subsection \<open>Yearly feature means\<close>









subsection \<open>Zero-row inputs\<close>

lemma sort_key_popularity_contract: "sorts_by_popularity (sort_key popularity)"
  by (simp add: sorts_by_popularity_def)

lemma argsort_Nil:
  assumes "sorts_by_popularity argsort"
  shows "argsort [] = []"
proof -
  from assms have "mset (argsort []) = mset []" by (simp add: sorts_by_popularity_def)
  then show ?thesis by simp
qed

lemma top_songs_Nil:
  assumes "sorts_by_popularity argsort" and "decade_slice fd sel = []"
  shows "top_songs argsort fd sel = []"
  using assms by (simp add: top_songs_def head_def sort_values_desc_def argsort_Nil)

lemma radar_values_Nil:
  assumes "decade_slice fd sel = []"
  shows "radar_values fd sel = Inr (replicate 5 NaN)"
  using assms
  by (simp add: radar_values_def decade_features_def fit_transform_def is_infinite_def
      fit_def transform_def
      nanmin_def nanmax_def present_def mean_def as_double_def fsub_def
      handle_zeros_in_scale_def numeral_eq_Suc)

text \<open>
  C2, as the specification states it, fails for the decade fingerprint: with the empty
  selection the filtered table has no rows, the select box has no option and yields
  \<open>None\<close>, the five means are NaN, and the scaler passes them through. The fingerprint
  is a vector of five NaN entries, not an empty one.
\<close>

theorem radar_values_zero_rows_counterexample:
  "filtered_data (load_data example_csv) [] = []
   \<and> selectbox_default (decade_options (filtered_data (load_data example_csv) [])) = None
   \<and> radar_values (filtered_data (load_data example_csv) []) None
       = Inr [NaN, NaN, NaN, NaN, NaN]
   \<and> radar_values (filtered_data (load_data example_csv) []) None \<noteq> Inr []"
  by (simp add: filtered_data_def isin_def selectbox_default_def decade_options_def
      radar_values_def decade_features_def decade_slice_def fit_transform_def
      is_infinite_def fit_def
      transform_def nanmin_def nanmax_def present_def mean_def as_double_def fsub_def
      handle_zeros_in_scale_def)

text \<open>
  C2 (amended): on a zero-row input the yearly means, the top songs and the scatter sample
  are empty, and the scatter sample raises no error; the decade fingerprint of a zero-row
  input (an empty selection, or a decade without rows) is computed without error and is
  the vector of five NaN entries. The empty selection gives a zero-row filtered table and
  no choice of decade.
\<close>

theorem zero_row_outputs:
  assumes "sorts_by_popularity argsort"
  shows "yearly_avg_features [] = []
    \<and> top_songs argsort [] sel = []
    \<and> scatter_data choice [] = Inr []
    \<and> radar_values [] sel = Inr (replicate 5 NaN)
    \<and> (decade_slice fd sel = []
        \<longrightarrow> top_songs argsort fd sel = [] \<and> radar_values fd sel = Inr (replicate 5 NaN))
    \<and> filtered_data data [] = []
    \<and> selectbox_default (decade_options []) = None"
proof -
  have y: "yearly_avg_features [] = []"
    by (simp add: yearly_avg_features_def groupby_year_def)
  have e: "decade_slice [] sel = []"
    by (simp add: decade_slice_def)
  have t: "top_songs argsort [] sel = []"
    using assms e by (rule top_songs_Nil)
  have s: "scatter_data choice [] = Inr []"
    by (simp add: scatter_data_def)
  have r: "radar_values [] sel = Inr (replicate 5 NaN)"
    using e by (rule radar_values_Nil)
  have d: "decade_slice fd sel = []
        \<longrightarrow> top_songs argsort fd sel = [] \<and> radar_values fd sel = Inr (replicate 5 NaN)"
    using assms by (simp add: top_songs_Nil radar_values_Nil)
  have f: "filtered_data data [] = []"
    by (simp add: filtered_data_def isin_def)
  have b: "selectbox_default (decade_options []) = None"
    by (simp add: selectbox_default_def decade_options_def)
  from y t s r d f b show ?thesis by blast
qed

theorem zero_row_outputs_witness:
  "decade_slice example_rows (Some 1990) = []
   \<and> top_songs (sort_key popularity) example_rows (Some 1990) = []
   \<and> radar_values example_rows (Some 1990) = Inr (replicate 5 NaN)
   \<and> scatter_data first_positions [] = Inr []"
  using zero_row_outputs [OF sort_key_popularity_contract, of "Some 1990" first_positions
      example_rows "[]"]
  by (simp add: decade_slice_def example_rows_def add_decade_def mk_track_def wrap64_def)

end
